theory Spec2Isabelle
  imports Main
begin

section \<open>Data model of the workflow engine\<close>

text \<open>
  A shallow embedding of \<^verbatim>\<open>sca_rhythm/__init__.py\<close> (class \<^verbatim>\<open>Workflow\<close>).
  Python dictionaries with a fixed set of keys are records; a key that may be absent is an
  \<open>option\<close> field. Timestamps (\<^verbatim>\<open>datetime.utcnow()\<close>) and the fresh identifier
  (\<^verbatim>\<open>uuid.uuid4()\<close>) are parameters of the operations that read them. Calls of
  \<^verbatim>\<open>print\<close> are not modelled.
\<close>

subsection \<open>Status vocabulary\<close>

text \<open>
  Celery states are strings (\<^verbatim>\<open>celery.states.SUCCESS = 'SUCCESS'\<close>, ...), and the backend
  may report any string; \<^verbatim>\<open>PROGRESS\<close> is the custom state set by
  \<^verbatim>\<open>WorkflowTask.update_progress\<close>.
\<close>

type_synonym state = string

abbreviation PENDING :: state where "PENDING \<equiv> ''PENDING''"
abbreviation STARTED :: state where "STARTED \<equiv> ''STARTED''"
abbreviation RETRY :: state where "RETRY \<equiv> ''RETRY''"
abbreviation REVOKED :: state where "REVOKED \<equiv> ''REVOKED''"
abbreviation FAILURE :: state where "FAILURE \<equiv> ''FAILURE''"
abbreviation SUCCESS :: state where "SUCCESS \<equiv> ''SUCCESS''"
abbreviation PROGRESS :: state where "PROGRESS \<equiv> ''PROGRESS''"

subsection \<open>Python values\<close>

text \<open>
  The values that travel through the engine as task arguments, return values and stored
  results. \<open>PNone\<close> is Python's \<^verbatim>\<open>None\<close>; \<open>PList\<close> stands for both tuples and lists.
\<close>

datatype pyval =
    PNone
  | PBool bool
  | PInt int
  | PStr string
  | PList "pyval list"

type_synonym kwargs = "string \<rightharpoonup> pyval"

subsection \<open>Documents\<close>

text \<open>A run record: one element of a step's \<^verbatim>\<open>task_runs\<close>.\<close>

record run =
  task_id :: string
  date_start :: "nat option"
  end_time :: "nat option"

text \<open>
  A step of a stored workflow. \<open>task_runs = None\<close> is the key being absent, which the
  source reads as \<^verbatim>\<open>step.get('task_runs', [])\<close>.
\<close>

record step =
  name :: string
  task :: string
  task_runs :: "run list option"

text \<open>The workflow document (\<^verbatim>\<open>self.workflow\<close>, and a row of \<^verbatim>\<open>workflow_meta\<close>).\<close>

record workflow =
  wf_id :: string
  created_at :: "nat option"
  updated_at :: "nat option"
  steps :: "step list"
  wf_name :: "string option"

text \<open>
  A record of the execution backend's own result collection, as
  \<^verbatim>\<open>get_task_instance\<close> reads and returns it. By the backend's contract a record
  carries the arguments of its run. \<open>ti_result = None\<close> is the key \<^verbatim>\<open>'result'\<close> being
  absent.
\<close>

record task_inst =
  ti_id :: string
  ti_args :: pyval
  ti_result :: "pyval option"
  ti_date_start :: "nat option"

text \<open>
  The execution backend as the engine reads it: \<^verbatim>\<open>app.backend.get_status\<close>,
  \<^verbatim>\<open>app.backend.collection.find_one\<close>, and \<^verbatim>\<open>json.loads\<close>, which returns
  \<open>None\<close> where the Python function raises.
\<close>

record backend =
  get_status :: "string \<Rightarrow> state"
  collection :: "string \<rightharpoonup> task_inst"
  json_loads :: "pyval \<Rightarrow> pyval option"

text \<open>One call of \<^verbatim>\<open>app.send_task(name, args, kwargs)\<close>.\<close>

record dispatch =
  d_task :: string
  d_args :: pyval
  d_kwargs :: kwargs

text \<open>
  Everything the engine can change outside its own object: the \<^verbatim>\<open>workflow_meta\<close>
  collection, the calls of \<^verbatim>\<open>send_task\<close> and the calls of
  \<^verbatim>\<open>control.revoke(task_id, terminate=...)\<close>, both in call order.
\<close>

record world =
  wf_col :: "string \<rightharpoonup> workflow"
  sent :: "dispatch list"
  revoked :: "(string \<times> bool) list"

subsection \<open>Errors\<close>

text \<open>
  Each \<^verbatim>\<open>assert\<close> of the source is one constructor of \<open>assert_failure\<close> (the
  message's variable part is its argument). The specification calls an
  \<^verbatim>\<open>AssertionError\<close> a \<^verbatim>\<open>ValidationError\<close>.
\<close>

datatype assert_failure =
    StepsEmpty
  | NoNameKey nat
  | NameEmpty nat
  | NoTaskKey nat
  | DuplicateNames "string list"
  | NoArgsNoLastRun

datatype error =
    AssertionError assert_failure
  | WorkflowNotFound string
  | NeitherIdNorSteps
  | IndexError
  | TypeError
  | AttributeError

section \<open>Status derivation\<close>

definition runs_of :: "step \<Rightarrow> run list" where
  "runs_of st = (case task_runs st of None \<Rightarrow> [] | Some rs \<Rightarrow> rs)"

definition get_step_status :: "backend \<Rightarrow> step \<Rightarrow> state" where
  "get_step_status b st =
     (let rs = runs_of st
      in if length rs > 0 then get_status b (task_id (last rs)) else PENDING)"

definition get_pending_step :: "backend \<Rightarrow> workflow \<Rightarrow> (nat \<times> state) option" where
  "get_pending_step b flow =
     (let statuses = enumerate 0 (map (get_step_status b) (steps flow))
      in List.find (\<lambda>s. snd s \<noteq> SUCCESS) statuses)"

definition get_workflow_status :: "backend \<Rightarrow> workflow \<Rightarrow> state" where
  "get_workflow_status b flow =
     (case get_pending_step b flow of
        Some (step_idx, task_status) \<Rightarrow>
          if step_idx = 0 \<and> task_status = PENDING then PENDING
          else if task_status \<in> set [STARTED, RETRY, PENDING] then STARTED
          else task_status
      | None \<Rightarrow> SUCCESS)"

section \<open>The document store and the execution backend's effects\<close>

text \<open>
  The persistent store and the execution backend are external collaborators
  (\<^verbatim>\<open>pymongo\<close>, \<^verbatim>\<open>celery\<close>), taken by the contract the specification gives them:
  the store offers per-document read, insert, and full-document update by identifier
  (\<^verbatim>\<open>update_one\<close> without upsert changes nothing when no document has the identifier);
  dispatch and cancel are requests, recorded in call order.
\<close>

definition insert_one :: "workflow \<Rightarrow> world \<Rightarrow> world" where
  "insert_one doc w = w\<lparr>wf_col := (wf_col w)(wf_id doc \<mapsto> doc)\<rparr>"

definition update_one :: "string \<Rightarrow> workflow \<Rightarrow> world \<Rightarrow> world" where
  "update_one wid doc w =
     (if wid \<in> dom (wf_col w) then w\<lparr>wf_col := (wf_col w)(wid \<mapsto> doc)\<rparr> else w)"

definition send_task :: "string \<Rightarrow> pyval \<Rightarrow> kwargs \<Rightarrow> world \<Rightarrow> world" where
  "send_task tname args kw w =
     w\<lparr>sent := sent w @ [\<lparr>d_task = tname, d_args = args, d_kwargs = kw\<rparr>]\<rparr>"

definition revoke :: "string \<Rightarrow> bool \<Rightarrow> world \<Rightarrow> world" where
  "revoke tid terminate w = w\<lparr>revoked := revoked w @ [(tid, terminate)]\<rparr>"

section \<open>Construction\<close>

text \<open>
  \<^verbatim>\<open>duplicates(items)\<close> is
  \<^verbatim>\<open>list((Counter(items) - Counter(set(items))).keys())\<close>: the keys of a
  \<^verbatim>\<open>Counter\<close> come in order of first occurrence, and the subtraction keeps the keys
  whose count stays positive.
\<close>

fun counter_keys :: "'a list \<Rightarrow> 'a list" where
  "counter_keys [] = []"
| "counter_keys (x # xs) = x # filter (\<lambda>y. y \<noteq> x) (counter_keys xs)"

definition duplicates :: "'a list \<Rightarrow> 'a list" where
  "duplicates items = filter (\<lambda>k. count_list items k - 1 > 0) (counter_keys items)"

text \<open>
  A step as the caller of \<^verbatim>\<open>Workflow(app, steps=...)\<close> passes it: a dictionary in
  which the keys \<^verbatim>\<open>name\<close> and \<^verbatim>\<open>task\<close> may be missing.
\<close>

record step_input =
  in_name :: "string option"
  in_task :: "string option"
  in_task_runs :: "run list option"

text \<open>
  The loop over \<^verbatim>\<open>enumerate(steps)\<close> with its three assertions per step. A list
  that passes is stored as it is, so the result carries the same steps with both keys
  present.
\<close>

fun check_steps :: "nat \<Rightarrow> step_input list \<Rightarrow> error + step list" where
  "check_steps i [] = Inr []"
| "check_steps i (s # ss) =
     (case in_name s of
        None \<Rightarrow> Inl (AssertionError (NoNameKey i))
      | Some n \<Rightarrow>
          if \<not> length n > 0 then Inl (AssertionError (NameEmpty i))
          else (case in_task s of
                  None \<Rightarrow> Inl (AssertionError (NoTaskKey i))
                | Some t \<Rightarrow>
                    (case check_steps (Suc i) ss of
                       Inl e \<Rightarrow> Inl e
                     | Inr rest \<Rightarrow>
                         Inr (\<lparr>name = n, task = t, task_runs = in_task_runs s\<rparr> # rest))))"

text \<open>
  \<^verbatim>\<open>Workflow.__init__(celery_app, workflow_id, steps, name)\<close>; \<open>uid\<close> is the value of
  \<^verbatim>\<open>str(uuid.uuid4())\<close> and \<open>now\<close> that of \<^verbatim>\<open>datetime.utcnow()\<close>. The result is
  the new object's \<^verbatim>\<open>self.workflow\<close>, or the exception raised.
\<close>

definition init ::
  "string \<Rightarrow> nat \<Rightarrow> string option \<Rightarrow> step_input list option \<Rightarrow> string option \<Rightarrow> world
     \<Rightarrow> (error + workflow) \<times> world" where
  "init uid now workflow_id steps_arg nm w =
     (case workflow_id of
        Some wid \<Rightarrow>
          (case wf_col w wid of
             Some res \<Rightarrow> (Inr res, w)
           | None \<Rightarrow> (Inl (WorkflowNotFound wid), w))
      | None \<Rightarrow>
          (case steps_arg of
             Some ss \<Rightarrow>
               if \<not> length ss > 0 then (Inl (AssertionError StepsEmpty), w)
               else (case check_steps 0 ss of
                       Inl e \<Rightarrow> (Inl e, w)
                     | Inr sts \<Rightarrow>
                         let names = map name sts;
                             duplicate_names = duplicates names
                         in if \<not> length duplicate_names = 0
                            then (Inl (AssertionError (DuplicateNames duplicate_names)), w)
                            else let flow = \<lparr>wf_id = uid, created_at = Some now,
                                             updated_at = None, steps = sts, wf_name = nm\<rparr>
                                 in (Inr flow, insert_one flow w))
           | None \<Rightarrow> (Inl NeitherIdNorSteps, w)))"

section \<open>Step lookup and task instances\<close>

definition get_step :: "workflow \<Rightarrow> string \<Rightarrow> step option" where
  "get_step flow step_name =
     (let it = dropWhile (\<lambda>st. name st \<noteq> step_name) (steps flow)
      in case it of [] \<Rightarrow> None | st # _ \<Rightarrow> Some st)"

definition get_next_step :: "workflow \<Rightarrow> string \<Rightarrow> step option" where
  "get_next_step flow step_name =
     (let it = dropWhile (\<lambda>st. name st \<noteq> step_name) (steps flow);
          skip_one_it = drop 1 it
      in case skip_one_it of [] \<Rightarrow> None | st # _ \<Rightarrow> Some st)"

definition get_task_instance :: "backend \<Rightarrow> string \<Rightarrow> nat option \<Rightarrow> task_inst option" where
  "get_task_instance b tid ds =
     (case collection b tid of
        None \<Rightarrow> None
      | Some t0 \<Rightarrow>
          let t = t0\<lparr>ti_date_start := ds\<rparr>
          in (case ti_result t of
                None \<Rightarrow> Some t
              | Some r \<Rightarrow>
                  if r \<noteq> PNone
                  then (case json_loads b r of
                          Some v \<Rightarrow> Some (t\<lparr>ti_result := Some v\<rparr>)
                        | None \<Rightarrow> Some t)
                  else Some t))"

definition get_last_run_task_instance :: "backend \<Rightarrow> step \<Rightarrow> task_inst option" where
  "get_last_run_task_instance b st =
     (let rs = runs_of st
      in if length rs > 0
         then get_task_instance b (task_id (last rs)) (date_start (last rs))
         else None)"

section \<open>Operations\<close>

text \<open>
  Every operation takes the engine's document \<^verbatim>\<open>self.workflow\<close> and the world, and
  returns its result (or the exception raised) with the world after it; an operation that
  assigns to \<^verbatim>\<open>self.workflow\<close> or mutates it returns the document as well.
\<close>

definition start :: "workflow \<Rightarrow> pyval list \<Rightarrow> kwargs \<Rightarrow> world \<Rightarrow> (error + unit) \<times> world" where
  "start flow args kw w =
     (case steps flow of
        [] \<Rightarrow> (Inl IndexError, w)
      | first_step # _ \<Rightarrow>
          let kw1 = kw(''workflow_id'' \<mapsto> PStr (wf_id flow));
              kw2 = kw1(''step'' \<mapsto> PStr (name first_step))
          in (Inr (), send_task (task first_step) (PList args) kw2 w))"

record revoked_step =
  rs_task_id :: string
  rs_task :: string
  rs_name :: string

record pause_result =
  paused :: bool
  revoked_step :: "revoked_step option"

definition pause :: "backend \<Rightarrow> workflow \<Rightarrow> world \<Rightarrow> pause_result \<times> world" where
  "pause b flow w =
     (case get_pending_step b flow of
        Some (i, status) \<Rightarrow>
          if status \<notin> set [SUCCESS, FAILURE] then
            let st = steps flow ! i;
                rs = runs_of st
            in if length rs > 0 then
                 let tid = task_id (last rs)
                 in (\<lparr>paused = True,
                      revoked_step = Some \<lparr>rs_task_id = tid, rs_task = task st, rs_name = name st\<rparr>\<rparr>,
                     revoke tid True w)
               else (\<lparr>paused = False, revoked_step = None\<rparr>, w)
          else (\<lparr>paused = False, revoked_step = None\<rparr>, w)
      | None \<Rightarrow> (\<lparr>paused = False, revoked_step = None\<rparr>, w))"

record restarted_step =
  rst_name :: string
  rst_task :: string

record resume_result =
  resumed :: bool
  restarted_step :: "restarted_step option"

text \<open>\<^verbatim>\<open>resume(force, args)\<close>; \<open>args = PNone\<close> is the default \<^verbatim>\<open>args=None\<close>.\<close>

definition resume ::
  "backend \<Rightarrow> workflow \<Rightarrow> bool \<Rightarrow> pyval \<Rightarrow> world \<Rightarrow> (error + resume_result) \<times> world" where
  "resume b flow force args w =
     (case get_pending_step b flow of
        Some (i, status) \<Rightarrow>
          if status \<in> set [FAILURE, REVOKED] \<or> force then
            let st = steps flow ! i;
                task_inst = get_last_run_task_instance b st
            in if task_inst = None \<and> args = PNone
               then (Inl (AssertionError NoArgsNoLastRun), w)
               else
                 let task_args = (case task_inst of Some t \<Rightarrow> ti_args t | None \<Rightarrow> args);
                     kw = [''workflow_id'' \<mapsto> PStr (wf_id flow), ''step'' \<mapsto> PStr (name st)]
                 in (Inr \<lparr>resumed = True,
                          restarted_step = Some \<lparr>rst_name = name st, rst_task = task st\<rparr>\<rparr>,
                     send_task (task st) task_args kw w)
          else (Inr \<lparr>resumed = False, restarted_step = None\<rparr>, w)
      | None \<Rightarrow> (Inr \<lparr>resumed = False, restarted_step = None\<rparr>, w))"

definition update :: "nat \<Rightarrow> workflow \<Rightarrow> world \<Rightarrow> workflow \<times> world" where
  "update now flow w =
     (let flow' = flow\<lparr>updated_at := Some now\<rparr>
      in (flow', update_one (wf_id flow') flow' w))"

text \<open>
  \<^verbatim>\<open>get_step\<close> returns the dictionary that sits in \<^verbatim>\<open>self.workflow['steps']\<close>, so
  a write to it is a write to the first step of that name in the document.
\<close>

fun map_first :: "('a \<Rightarrow> bool) \<Rightarrow> ('a \<Rightarrow> 'a) \<Rightarrow> 'a list \<Rightarrow> 'a list" where
  "map_first P f [] = []"
| "map_first P f (x # xs) = (if P x then f x # xs else x # map_first P f xs)"

text \<open>
  \<^verbatim>\<open>on_step_start(step_name, task_id)\<close>; \<open>t_start\<close> and \<open>t_upd\<close> are the two readings of
  the clock. \<^verbatim>\<open>get_step\<close> returning \<^verbatim>\<open>None\<close> makes \<^verbatim>\<open>step.get\<close> raise.
\<close>

definition on_step_start ::
  "nat \<Rightarrow> nat \<Rightarrow> string \<Rightarrow> string \<Rightarrow> workflow \<Rightarrow> world \<Rightarrow> (error + unit) \<times> workflow \<times> world" where
  "on_step_start t_start t_upd step_name tid flow w =
     (case get_step flow step_name of
        None \<Rightarrow> (Inl AttributeError, flow, w)
      | Some _ \<Rightarrow>
          let append_run = (\<lambda>st. st\<lparr>task_runs :=
                 Some (runs_of st @ [\<lparr>task_id = tid, date_start = Some t_start, end_time = None\<rparr>])\<rparr>);
              flow1 = flow\<lparr>steps := map_first (\<lambda>st. name st = step_name) append_run (steps flow)\<rparr>
          in (Inr (), update t_upd flow1 w))"

fun getitem0 :: "pyval \<Rightarrow> error + pyval" where
  "getitem0 (PList (x # _)) = Inr x"
| "getitem0 (PList []) = Inl IndexError"
| "getitem0 (PStr (c # _)) = Inr (PStr [c])"
| "getitem0 (PStr []) = Inl IndexError"
| "getitem0 _ = Inl TypeError"

definition on_step_success :: "pyval \<Rightarrow> string \<Rightarrow> workflow \<Rightarrow> world \<Rightarrow> (error + unit) \<times> world" where
  "on_step_success retval step_name flow w =
     (case get_next_step flow step_name of
        Some next_step \<Rightarrow>
          let kw = [''workflow_id'' \<mapsto> PStr (wf_id flow), ''step'' \<mapsto> PStr (name next_step)]
          in (case getitem0 retval of
                Inl e \<Rightarrow> (Inl e, w)
              | Inr r \<Rightarrow> (Inr (), send_task (task next_step) (PList [r]) kw w))
      | None \<Rightarrow> (Inr (), w))"

definition update_step_end_time ::
  "nat \<Rightarrow> nat \<Rightarrow> string \<Rightarrow> workflow \<Rightarrow> world \<Rightarrow> (error + unit) \<times> workflow \<times> world" where
  "update_step_end_time t_end t_upd step_name flow w =
     (case get_step flow step_name of
        None \<Rightarrow> (Inl AttributeError, flow, w)
      | Some _ \<Rightarrow>
          let set_end = (\<lambda>st.
                 let rs = runs_of st
                 in if length rs > 0
                    then st\<lparr>task_runs := Some (butlast rs @ [(last rs)\<lparr>end_time := Some t_end\<rparr>])\<rparr>
                    else st);
              flow1 = flow\<lparr>steps := map_first (\<lambda>st. name st = step_name) set_end (steps flow)\<rparr>
          in (Inr (), update t_upd flow1 w))"

definition refresh :: "workflow \<Rightarrow> world \<Rightarrow> error + workflow" where
  "refresh flow w =
     (case wf_col w (wf_id flow) of
        Some res \<Rightarrow> Inr res
      | None \<Rightarrow> Inl (WorkflowNotFound (wf_id flow)))"

record emb_step =
  es_name :: string
  es_task :: string
  es_status :: state
  last_task_run :: "task_inst option option"
  prev_task_runs :: "task_inst option list option"

record emb_workflow =
  ew_id :: string
  ew_created_at :: "nat option"
  ew_updated_at :: "nat option"
  ew_status :: state
  steps_done :: nat
  total_steps :: nat
  ew_steps :: "emb_step list"

definition embellish_step :: "backend \<Rightarrow> bool \<Rightarrow> bool \<Rightarrow> step \<Rightarrow> emb_step" where
  "embellish_step b with_last with_prev st =
     \<lparr>es_name = name st, es_task = task st, es_status = get_step_status b st,
      last_task_run = (if with_last then Some (get_last_run_task_instance b st) else None),
      prev_task_runs =
        (if with_prev
         then Some (map (\<lambda>t. get_task_instance b (task_id t) (date_start t)) (butlast (runs_of st)))
         else None)\<rparr>"

definition get_embellished_workflow ::
  "backend \<Rightarrow> bool \<Rightarrow> bool \<Rightarrow> workflow \<Rightarrow> world \<Rightarrow> (error + emb_workflow) \<times> workflow" where
  "get_embellished_workflow b with_last with_prev flow w =
     (case refresh flow w of
        Inl e \<Rightarrow> (Inl e, flow)
      | Inr flow' \<Rightarrow>
          let status = get_workflow_status b flow';
              pending = get_pending_step b flow';
              emb = map (embellish_step b with_last with_prev) (steps flow')
          in (Inr \<lparr>ew_id = wf_id flow', ew_created_at = created_at flow',
                   ew_updated_at = updated_at flow', ew_status = status,
                   steps_done = (case pending of Some (i, _) \<Rightarrow> i | None \<Rightarrow> length emb),
                   total_steps = length emb, ew_steps = emb\<rparr>,
              flow'))"

section \<open>Operations as data\<close>

text \<open>
  The operations of an engine object that have an effect, as one type, with \<open>run_op\<close>
  giving the engine's document and the world after a call (whether it returned or raised).
  The readers \<^verbatim>\<open>get_workflow_status\<close>, \<^verbatim>\<open>get_pending_step\<close>,
  \<^verbatim>\<open>get_step_status\<close>, \<^verbatim>\<open>get_step\<close>, \<^verbatim>\<open>get_next_step\<close> and
  \<^verbatim>\<open>get_task_instance\<close> are functions of the document and the backend above and change
  neither.
\<close>

datatype op =
    OpStart "pyval list" kwargs
  | OpPause
  | OpResume bool pyval
  | OpOnStepStart nat nat string string
  | OpOnStepSuccess pyval string
  | OpUpdate nat
  | OpUpdateStepEndTime nat nat string
  | OpRefresh
  | OpGetEmbellishedWorkflow bool bool

fun run_op :: "backend \<Rightarrow> op \<Rightarrow> workflow \<times> world \<Rightarrow> workflow \<times> world" where
  "run_op b (OpStart args kw) (flow, w) = (flow, snd (start flow args kw w))"
| "run_op b OpPause (flow, w) = (flow, snd (pause b flow w))"
| "run_op b (OpResume force args) (flow, w) = (flow, snd (resume b flow force args w))"
| "run_op b (OpOnStepStart t_start t_upd step_name tid) (flow, w) =
     snd (on_step_start t_start t_upd step_name tid flow w)"
| "run_op b (OpOnStepSuccess retval step_name) (flow, w) =
     (flow, snd (on_step_success retval step_name flow w))"
| "run_op b (OpUpdate now) (flow, w) = update now flow w"
| "run_op b (OpUpdateStepEndTime t_end t_upd step_name) (flow, w) =
     snd (update_step_end_time t_end t_upd step_name flow w)"
| "run_op b OpRefresh (flow, w) =
     (case refresh flow w of Inl _ \<Rightarrow> (flow, w) | Inr flow' \<Rightarrow> (flow', w))"
| "run_op b (OpGetEmbellishedWorkflow with_last with_prev) (flow, w) =
     (snd (get_embellished_workflow b with_last with_prev flow w), w)"

text \<open>
  How one call may change a step's \<^verbatim>\<open>task_runs\<close>, from \<open>old\<close> to \<open>new\<close>:
  \<^verbatim>\<open>on_step_start\<close> may append its run record, \<^verbatim>\<open>update_step_end_time\<close> may set
  \<^verbatim>\<open>end_time\<close> on the last element, and no other operation changes it.
\<close>

fun history_change :: "op \<Rightarrow> run list \<Rightarrow> run list \<Rightarrow> bool" where
  "history_change (OpOnStepStart t_start t_upd step_name tid) old new =
     (new = old \<or> new = old @ [\<lparr>task_id = tid, date_start = Some t_start, end_time = None\<rparr>])"
| "history_change (OpUpdateStepEndTime t_end t_upd step_name) old new =
     (new = old \<or> (old \<noteq> [] \<and> new = butlast old @ [(last old)\<lparr>end_time := Some t_end\<rparr>]))"
| "history_change _ old new = (new = old)"

section \<open>Conditions on the caller's step list\<close>

text \<open>
  What the specification asks of one step passed to creation: both keys present and the
  name non-empty.
\<close>

definition step_keys_ok :: "step_input \<Rightarrow> bool" where
  "step_keys_ok s \<longleftrightarrow> in_name s \<noteq> None \<and> in_name s \<noteq> Some [] \<and> in_task s \<noteq> None"

section \<open>Sample inputs\<close>

text \<open>
  A backend, a two-step workflow and an empty world, on which the theorems below are
  instantiated. The backend reports \<open>SUCCESS\<close> for run \<open>r1\<close>, \<open>STARTED\<close> for
  \<open>r2\<close>, \<open>FAILURE\<close> for \<open>r3\<close>; it stores a record for \<open>r3\<close> only, whose result
  is the text \<^verbatim>\<open>{\<close>. Its decoder accepts the text \<^verbatim>\<open>null\<close> and rejects every other
  value, as \<^verbatim>\<open>json.loads\<close> rejects \<^verbatim>\<open>{\<close>.
\<close>

definition ex_backend :: backend where
  "ex_backend =
     \<lparr>get_status = (\<lambda>tid. if tid = ''r1'' then SUCCESS else if tid = ''r2'' then STARTED
                          else if tid = ''r3'' then FAILURE else PENDING),
      collection = [''r3'' \<mapsto> \<lparr>ti_id = ''r3'', ti_args = PList [PInt 7],
                                ti_result = Some (PStr ''{''), ti_date_start = None\<rparr>],
      json_loads = (\<lambda>v. if v = PStr ''null'' then Some PNone else None)\<rparr>"

definition ex_run :: "string \<Rightarrow> run" where
  "ex_run tid = \<lparr>task_id = tid, date_start = Some 1, end_time = None\<rparr>"

definition ex_flow :: "run list option \<Rightarrow> run list option \<Rightarrow> workflow" where
  "ex_flow ra rb =
     \<lparr>wf_id = ''w1'', created_at = Some 0, updated_at = None,
      steps = [\<lparr>name = ''a'', task = ''t1'', task_runs = ra\<rparr>,
               \<lparr>name = ''b'', task = ''t2'', task_runs = rb\<rparr>],
      wf_name = None\<rparr>"

definition ex_world :: world where
  "ex_world = \<lparr>wf_col = Map.empty, sent = [], revoked = []\<rparr>"

definition ex_steps :: "step_input list" where
  "ex_steps = [\<lparr>in_name = Some ''a'', in_task = Some ''t1'', in_task_runs = None\<rparr>,
               \<lparr>in_name = Some ''b'', in_task = Some ''t2'', in_task_runs = None\<rparr>]"

lemmas ex_defs = ex_backend_def ex_run_def ex_flow_def runs_of_def get_step_status_def

section \<open>Properties: workflow status\<close>

lemma get_pending_step_None:
  "get_pending_step b flow = None \<longleftrightarrow> (\<forall>st \<in> set (steps flow). get_step_status b st = SUCCESS)"
proof -
  have "set (enumerate 0 (map (get_step_status b) (steps flow))) =
        {(i, get_step_status b (steps flow ! i)) | i. i < length (steps flow)}"
    by (auto simp: in_set_enumerate_eq)
  then show ?thesis
    unfolding get_pending_step_def Let_def find_None_iff
    by (auto simp: all_set_conv_all_nth)
qed

lemma get_pending_step_Some:
  "get_pending_step b flow = Some (i, s) \<longleftrightarrow>
     i < length (steps flow) \<and> s = get_step_status b (steps flow ! i) \<and> s \<noteq> SUCCESS \<and>
     (\<forall>j<i. get_step_status b (steps flow ! j) = SUCCESS)"
  unfolding get_pending_step_def Let_def find_Some_iff
  by (auto simp: nth_enumerate_eq)

text \<open>
  C1. The workflow status is \<open>SUCCESS\<close> when every step's derived status is
  \<open>SUCCESS\<close>. Otherwise, with \<open>i\<close> the first step in order whose derived status
  \<open>s\<close> is not \<open>SUCCESS\<close>: the status is \<open>PENDING\<close> when \<open>i = 0\<close> and \<open>s\<close> is
  \<open>PENDING\<close>, \<open>STARTED\<close> when \<open>s\<close> is \<open>STARTED\<close>, \<open>RETRY\<close> or \<open>PENDING\<close>,
  and \<open>s\<close> itself in every other case.
\<close>

theorem get_workflow_status_table:
  "((\<forall>st \<in> set (steps flow). get_step_status b st = SUCCESS) \<longrightarrow>
      get_workflow_status b flow = SUCCESS) \<and>
   (\<forall>i s. i < length (steps flow) \<and> get_step_status b (steps flow ! i) = s \<and> s \<noteq> SUCCESS \<and>
          (\<forall>j<i. get_step_status b (steps flow ! j) = SUCCESS) \<longrightarrow>
      get_workflow_status b flow =
        (if i = 0 \<and> s = PENDING then PENDING
         else if s = STARTED \<or> s = RETRY \<or> s = PENDING then STARTED
         else s))"
proof (intro conjI allI impI)
  assume "\<forall>st \<in> set (steps flow). get_step_status b st = SUCCESS"
  then have "get_pending_step b flow = None"
    by (simp add: get_pending_step_None)
  then show "get_workflow_status b flow = SUCCESS"
    by (simp add: get_workflow_status_def)
next
  fix i s
  assume "i < length (steps flow) \<and> get_step_status b (steps flow ! i) = s \<and> s \<noteq> SUCCESS \<and>
          (\<forall>j<i. get_step_status b (steps flow ! j) = SUCCESS)"
  then have "get_pending_step b flow = Some (i, s)"
    by (simp add: get_pending_step_Some)
  then show "get_workflow_status b flow =
        (if i = 0 \<and> s = PENDING then PENDING
         else if s = STARTED \<or> s = RETRY \<or> s = PENDING then STARTED
         else s)"
    by (simp add: get_workflow_status_def)
qed

theorem get_workflow_status_table_witness:
  "get_workflow_status ex_backend (ex_flow (Some [ex_run ''r1'']) None) = STARTED \<and>
   get_workflow_status ex_backend (ex_flow (Some [ex_run ''r1'']) (Some [ex_run ''r1''])) = SUCCESS"
proof -
  let ?f = "ex_flow (Some [ex_run ''r1'']) None"
  let ?g = "ex_flow (Some [ex_run ''r1'']) (Some [ex_run ''r1''])"
  have a: "1 < length (steps ?f) \<and> get_step_status ex_backend (steps ?f ! 1) = PENDING \<and>
        PENDING \<noteq> SUCCESS \<and> (\<forall>j<1. get_step_status ex_backend (steps ?f ! j) = SUCCESS)"
    by (simp add: ex_defs)
  have b: "\<forall>st \<in> set (steps ?g). get_step_status ex_backend st = SUCCESS"
    by (simp add: ex_defs)
  from get_workflow_status_table [of ?f ex_backend, THEN conjunct2, rule_format, of 1 PENDING] a
  have "get_workflow_status ex_backend ?f = STARTED" by simp
  moreover from get_workflow_status_table [of ?g ex_backend, THEN conjunct1] b
  have "get_workflow_status ex_backend ?g = SUCCESS" by blast
  ultimately show ?thesis by simp
qed

section \<open>Properties: resume\<close>

lemma get_task_instance_found:
  "collection b tid = Some rec \<Longrightarrow>
     \<exists>t. get_task_instance b tid ds = Some t \<and> ti_args t = ti_args rec"
  by (simp add: get_task_instance_def Let_def split: option.splits)

lemma get_task_instance_missing:
  "collection b tid = None \<Longrightarrow> get_task_instance b tid ds = None"
  by (simp add: get_task_instance_def)

lemma get_last_run_task_instance_found:
  "runs_of st \<noteq> [] \<Longrightarrow> collection b (task_id (last (runs_of st))) = Some rec \<Longrightarrow>
     \<exists>t. get_last_run_task_instance b st = Some t \<and> ti_args t = ti_args rec"
  by (simp add: get_last_run_task_instance_def Let_def get_task_instance_found)

lemma get_last_run_task_instance_missing:
  "runs_of st = [] \<or> collection b (task_id (last (runs_of st))) = None \<Longrightarrow>
     get_last_run_task_instance b st = None"
  by (auto simp: get_last_run_task_instance_def Let_def get_task_instance_missing)

text \<open>
  C2. Let step \<open>i\<close> be the pending step (the first whose derived status \<open>s\<close> is not
  \<open>SUCCESS\<close>) and let it be eligible: \<open>s\<close> is \<open>FAILURE\<close> or \<open>REVOKED\<close>, or
  \<open>force\<close> is set. If the step has a run record and the backend's collection holds a
  record for the last run's \<open>task_id\<close>, \<open>resume\<close> dispatches the step's task with the
  arguments of that record. Otherwise it dispatches with the caller's \<open>args\<close>, and when
  those are \<^verbatim>\<open>None\<close> it fails with the assertion error and leaves the world as it was.
  With \<open>force\<close> set and a step that never ran, this is a dispatch with the caller's
  \<open>args\<close> exactly.
\<close>

theorem resume_arguments:
  assumes pending: "i < length (steps flow)" "get_step_status b (steps flow ! i) = s"
      "s \<noteq> SUCCESS" "\<forall>j<i. get_step_status b (steps flow ! j) = SUCCESS"
    and eligible: "s = FAILURE \<or> s = REVOKED \<or> force"
  shows
   "(\<forall>rec. runs_of (steps flow ! i) \<noteq> [] \<and>
           collection b (task_id (last (runs_of (steps flow ! i)))) = Some rec \<longrightarrow>
       resume b flow force args w =
         (Inr \<lparr>resumed = True,
               restarted_step = Some \<lparr>rst_name = name (steps flow ! i),
                                      rst_task = task (steps flow ! i)\<rparr>\<rparr>,
          w\<lparr>sent := sent w @
               [\<lparr>d_task = task (steps flow ! i), d_args = ti_args rec,
                 d_kwargs = [''workflow_id'' \<mapsto> PStr (wf_id flow),
                             ''step'' \<mapsto> PStr (name (steps flow ! i))]\<rparr>]\<rparr>)) \<and>
    ((runs_of (steps flow ! i) = [] \<or>
      collection b (task_id (last (runs_of (steps flow ! i)))) = None) \<longrightarrow>
       resume b flow force args w =
         (if args = PNone then (Inl (AssertionError NoArgsNoLastRun), w)
          else (Inr \<lparr>resumed = True,
                     restarted_step = Some \<lparr>rst_name = name (steps flow ! i),
                                            rst_task = task (steps flow ! i)\<rparr>\<rparr>,
                w\<lparr>sent := sent w @
                     [\<lparr>d_task = task (steps flow ! i), d_args = args,
                       d_kwargs = [''workflow_id'' \<mapsto> PStr (wf_id flow),
                                   ''step'' \<mapsto> PStr (name (steps flow ! i))]\<rparr>]\<rparr>)))"
proof -
  have p: "get_pending_step b flow = Some (i, s)"
    using pending by (simp add: get_pending_step_Some)
  have e: "s \<in> set [FAILURE, REVOKED] \<or> force"
    using eligible by auto
  show ?thesis
  proof (intro conjI allI impI)
    fix rec
    assume "runs_of (steps flow ! i) \<noteq> [] \<and>
           collection b (task_id (last (runs_of (steps flow ! i)))) = Some rec"
    then obtain t where "get_last_run_task_instance b (steps flow ! i) = Some t"
        and "ti_args t = ti_args rec"
      using get_last_run_task_instance_found by blast
    then show "resume b flow force args w =
         (Inr \<lparr>resumed = True,
               restarted_step = Some \<lparr>rst_name = name (steps flow ! i),
                                      rst_task = task (steps flow ! i)\<rparr>\<rparr>,
          w\<lparr>sent := sent w @
               [\<lparr>d_task = task (steps flow ! i), d_args = ti_args rec,
                 d_kwargs = [''workflow_id'' \<mapsto> PStr (wf_id flow),
                             ''step'' \<mapsto> PStr (name (steps flow ! i))]\<rparr>]\<rparr>)"
      using p e by (simp add: resume_def Let_def send_task_def del: set_simps)
  next
    assume "runs_of (steps flow ! i) = [] \<or>
      collection b (task_id (last (runs_of (steps flow ! i)))) = None"
    then have "get_last_run_task_instance b (steps flow ! i) = None"
      by (rule get_last_run_task_instance_missing)
    then show "resume b flow force args w =
         (if args = PNone then (Inl (AssertionError NoArgsNoLastRun), w)
          else (Inr \<lparr>resumed = True,
                     restarted_step = Some \<lparr>rst_name = name (steps flow ! i),
                                            rst_task = task (steps flow ! i)\<rparr>\<rparr>,
                w\<lparr>sent := sent w @
                     [\<lparr>d_task = task (steps flow ! i), d_args = args,
                       d_kwargs = [''workflow_id'' \<mapsto> PStr (wf_id flow),
                                   ''step'' \<mapsto> PStr (name (steps flow ! i))]\<rparr>]\<rparr>))"
      using p e by (simp add: resume_def Let_def send_task_def del: set_simps)
  qed
qed

theorem resume_arguments_witness:
  "resume ex_backend (ex_flow (Some [ex_run ''r3'']) None) False PNone ex_world =
     (Inr \<lparr>resumed = True, restarted_step = Some \<lparr>rst_name = ''a'', rst_task = ''t1''\<rparr>\<rparr>,
      ex_world\<lparr>sent := [\<lparr>d_task = ''t1'', d_args = PList [PInt 7],
                          d_kwargs = [''workflow_id'' \<mapsto> PStr ''w1'', ''step'' \<mapsto> PStr ''a'']\<rparr>]\<rparr>) \<and>
   resume ex_backend (ex_flow None None) True (PList [PInt 5]) ex_world =
     (Inr \<lparr>resumed = True, restarted_step = Some \<lparr>rst_name = ''a'', rst_task = ''t1''\<rparr>\<rparr>,
      ex_world\<lparr>sent := [\<lparr>d_task = ''t1'', d_args = PList [PInt 5],
                          d_kwargs = [''workflow_id'' \<mapsto> PStr ''w1'', ''step'' \<mapsto> PStr ''a'']\<rparr>]\<rparr>) \<and>
   resume ex_backend (ex_flow None None) True PNone ex_world =
     (Inl (AssertionError NoArgsNoLastRun), ex_world)"
proof -
  let ?f = "ex_flow (Some [ex_run ''r3'']) None"
  let ?g = "ex_flow None None"
  have f: "0 < length (steps ?f)" "get_step_status ex_backend (steps ?f ! 0) = FAILURE"
      "FAILURE \<noteq> SUCCESS" "\<forall>j<0. get_step_status ex_backend (steps ?f ! j) = SUCCESS"
      "FAILURE = FAILURE \<or> FAILURE = REVOKED \<or> False"
    by (simp_all add: ex_defs)
  have g: "0 < length (steps ?g)" "get_step_status ex_backend (steps ?g ! 0) = PENDING"
      "PENDING \<noteq> SUCCESS" "\<forall>j<0. get_step_status ex_backend (steps ?g ! j) = SUCCESS"
      "PENDING = FAILURE \<or> PENDING = REVOKED \<or> True"
    by (simp_all add: ex_defs)
  have fr: "runs_of (steps ?f ! 0) \<noteq> [] \<and>
      collection ex_backend (task_id (last (runs_of (steps ?f ! 0)))) =
        Some \<lparr>ti_id = ''r3'', ti_args = PList [PInt 7], ti_result = Some (PStr ''{''),
              ti_date_start = None\<rparr>"
    by (simp add: ex_defs)
  have gr: "runs_of (steps ?g ! 0) = [] \<or>
      collection ex_backend (task_id (last (runs_of (steps ?g ! 0)))) = None"
    by (simp add: ex_defs)
  note 1 = resume_arguments [OF f, of PNone ex_world, THEN conjunct1, rule_format, OF fr]
  note 2 = resume_arguments [OF g, of "PList [PInt 5]" ex_world, THEN conjunct2, rule_format, OF gr]
  note 3 = resume_arguments [OF g, of PNone ex_world, THEN conjunct2, rule_format, OF gr]
  from 1 2 3 show ?thesis
    by (simp add: ex_flow_def ex_world_def)
qed

text \<open>
  C3, as the code has it. \<open>resume\<close> without \<open>force\<close> returns \<^verbatim>\<open>{resumed: false}\<close>
  and leaves the world as it was (nothing dispatched) both when every step's derived status
  is \<open>SUCCESS\<close> and when the pending step's status is \<open>PENDING\<close>: the status gate
  comes before the assertion on the arguments, so no assertion error is raised.
\<close>

theorem resume_not_eligible:
  "((\<forall>st \<in> set (steps flow). get_step_status b st = SUCCESS) \<longrightarrow>
      resume b flow False args w = (Inr \<lparr>resumed = False, restarted_step = None\<rparr>, w)) \<and>
   (\<forall>i. i < length (steps flow) \<and> get_step_status b (steps flow ! i) = PENDING \<and>
        (\<forall>j<i. get_step_status b (steps flow ! j) = SUCCESS) \<longrightarrow>
      resume b flow False args w = (Inr \<lparr>resumed = False, restarted_step = None\<rparr>, w))"
proof (intro conjI allI impI)
  assume "\<forall>st \<in> set (steps flow). get_step_status b st = SUCCESS"
  then have "get_pending_step b flow = None"
    by (simp add: get_pending_step_None)
  then show "resume b flow False args w = (Inr \<lparr>resumed = False, restarted_step = None\<rparr>, w)"
    by (simp add: resume_def)
next
  fix i
  assume "i < length (steps flow) \<and> get_step_status b (steps flow ! i) = PENDING \<and>
        (\<forall>j<i. get_step_status b (steps flow ! j) = SUCCESS)"
  then have "get_pending_step b flow = Some (i, PENDING)"
    by (simp add: get_pending_step_Some)
  then show "resume b flow False args w = (Inr \<lparr>resumed = False, restarted_step = None\<rparr>, w)"
    by (simp add: resume_def)
qed

theorem resume_not_eligible_witness:
  "resume ex_backend (ex_flow (Some [ex_run ''r1'']) (Some [ex_run ''r1''])) False PNone ex_world =
     (Inr \<lparr>resumed = False, restarted_step = None\<rparr>, ex_world) \<and>
   resume ex_backend (ex_flow (Some [ex_run ''r1'']) None) False PNone ex_world =
     (Inr \<lparr>resumed = False, restarted_step = None\<rparr>, ex_world)"
proof -
  let ?f = "ex_flow (Some [ex_run ''r1'']) (Some [ex_run ''r1''])"
  let ?g = "ex_flow (Some [ex_run ''r1'']) None"
  have f: "\<forall>st \<in> set (steps ?f). get_step_status ex_backend st = SUCCESS"
    by (simp add: ex_defs)
  have g: "1 < length (steps ?g) \<and> get_step_status ex_backend (steps ?g ! 1) = PENDING \<and>
      (\<forall>j<1. get_step_status ex_backend (steps ?g ! j) = SUCCESS)"
    by (simp add: ex_defs)
  note 1 = resume_not_eligible [of ?f ex_backend PNone ex_world, THEN conjunct1, THEN mp, OF f]
  note 2 = resume_not_eligible [of ?g ex_backend PNone ex_world, THEN conjunct2, rule_format, OF g]
  from 1 2 show ?thesis by simp
qed

text \<open>
  The second half of C3 as stated (a never-run pending step, no \<open>force\<close>, no \<open>args\<close>:
  failure with the assertion error) does not hold: on a workflow whose first step never ran
  the call returns \<^verbatim>\<open>{resumed: false}\<close>.
\<close>

theorem resume_pending_counterexample:
  "get_step_status ex_backend (steps (ex_flow None None) ! 0) = PENDING \<and>
   runs_of (steps (ex_flow None None) ! 0) = [] \<and>
   resume ex_backend (ex_flow None None) False PNone ex_world =
     (Inr \<lparr>resumed = False, restarted_step = None\<rparr>, ex_world) \<and>
   \<not> isl (fst (resume ex_backend (ex_flow None None) False PNone ex_world))"
  by (simp add: ex_defs resume_def get_pending_step_def)

section \<open>Properties: pause\<close>

text \<open>
  C4. \<open>pause\<close> returns \<^verbatim>\<open>{paused: false}\<close> and leaves the world as it was when every
  step succeeded, when the pending step's status is \<open>FAILURE\<close>, and when the pending step
  has no run record. In every other case it adds exactly one call
  \<^verbatim>\<open>revoke(task_id, terminate=True)\<close> for the last run's \<open>task_id\<close> and returns
  \<^verbatim>\<open>{paused: true}\<close> with that \<open>task_id\<close> and the step's task and name.
\<close>

theorem pause_cases:
  "((\<forall>st \<in> set (steps flow). get_step_status b st = SUCCESS) \<longrightarrow>
      pause b flow w = (\<lparr>paused = False, revoked_step = None\<rparr>, w)) \<and>
   (\<forall>i s. i < length (steps flow) \<and> get_step_status b (steps flow ! i) = s \<and> s \<noteq> SUCCESS \<and>
          (\<forall>j<i. get_step_status b (steps flow ! j) = SUCCESS) \<longrightarrow>
      pause b flow w =
        (if s = FAILURE \<or> runs_of (steps flow ! i) = []
         then (\<lparr>paused = False, revoked_step = None\<rparr>, w)
         else (\<lparr>paused = True,
                revoked_step = Some \<lparr>rs_task_id = task_id (last (runs_of (steps flow ! i))),
                                     rs_task = task (steps flow ! i),
                                     rs_name = name (steps flow ! i)\<rparr>\<rparr>,
               w\<lparr>revoked := revoked w @ [(task_id (last (runs_of (steps flow ! i))), True)]\<rparr>)))"
proof (intro conjI allI impI)
  assume "\<forall>st \<in> set (steps flow). get_step_status b st = SUCCESS"
  then have "get_pending_step b flow = None"
    by (simp add: get_pending_step_None)
  then show "pause b flow w = (\<lparr>paused = False, revoked_step = None\<rparr>, w)"
    by (simp add: pause_def)
next
  fix i s
  assume "i < length (steps flow) \<and> get_step_status b (steps flow ! i) = s \<and> s \<noteq> SUCCESS \<and>
          (\<forall>j<i. get_step_status b (steps flow ! j) = SUCCESS)"
  then have "get_pending_step b flow = Some (i, s)" and "s \<noteq> SUCCESS"
    by (simp_all add: get_pending_step_Some)
  then show "pause b flow w =
        (if s = FAILURE \<or> runs_of (steps flow ! i) = []
         then (\<lparr>paused = False, revoked_step = None\<rparr>, w)
         else (\<lparr>paused = True,
                revoked_step = Some \<lparr>rs_task_id = task_id (last (runs_of (steps flow ! i))),
                                     rs_task = task (steps flow ! i),
                                     rs_name = name (steps flow ! i)\<rparr>\<rparr>,
               w\<lparr>revoked := revoked w @ [(task_id (last (runs_of (steps flow ! i))), True)]\<rparr>))"
    by (simp add: pause_def Let_def revoke_def)
qed

theorem pause_cases_witness:
  "pause ex_backend (ex_flow (Some [ex_run ''r1'', ex_run ''r2'']) None) ex_world =
     (\<lparr>paused = True,
       revoked_step = Some \<lparr>rs_task_id = ''r2'', rs_task = ''t1'', rs_name = ''a''\<rparr>\<rparr>,
      ex_world\<lparr>revoked := [(''r2'', True)]\<rparr>) \<and>
   pause ex_backend (ex_flow (Some [ex_run ''r1'']) None) ex_world =
     (\<lparr>paused = False, revoked_step = None\<rparr>, ex_world) \<and>
   pause ex_backend (ex_flow (Some [ex_run ''r1'']) (Some [ex_run ''r1''])) ex_world =
     (\<lparr>paused = False, revoked_step = None\<rparr>, ex_world)"
proof -
  let ?f = "ex_flow (Some [ex_run ''r1'', ex_run ''r2'']) None"
  let ?g = "ex_flow (Some [ex_run ''r1'']) None"
  let ?h = "ex_flow (Some [ex_run ''r1'']) (Some [ex_run ''r1''])"
  have f: "0 < length (steps ?f) \<and> get_step_status ex_backend (steps ?f ! 0) = STARTED \<and>
      STARTED \<noteq> SUCCESS \<and> (\<forall>j<0. get_step_status ex_backend (steps ?f ! j) = SUCCESS)"
    by (simp add: ex_defs)
  have g: "1 < length (steps ?g) \<and> get_step_status ex_backend (steps ?g ! 1) = PENDING \<and>
      PENDING \<noteq> SUCCESS \<and> (\<forall>j<1. get_step_status ex_backend (steps ?g ! j) = SUCCESS)"
    by (simp add: ex_defs)
  have h: "\<forall>st \<in> set (steps ?h). get_step_status ex_backend st = SUCCESS"
    by (simp add: ex_defs)
  note 1 = pause_cases [of ?f ex_backend ex_world, THEN conjunct2, rule_format, OF f]
  note 2 = pause_cases [of ?g ex_backend ex_world, THEN conjunct2, rule_format, OF g]
  note 3 = pause_cases [of ?h ex_backend ex_world, THEN conjunct1, THEN mp, OF h]
  from 1 2 3 show ?thesis
    by (simp add: ex_flow_def ex_world_def ex_run_def runs_of_def)
qed

section \<open>Properties: step sequencing\<close>

lemma dropWhile_name_distinct:
  "distinct (map name xs) \<Longrightarrow> i < length xs \<Longrightarrow> name (xs ! i) = n \<Longrightarrow>
     dropWhile (\<lambda>st. name st \<noteq> n) xs = drop i xs"
proof (induction xs arbitrary: i)
  case Nil
  then show ?case by simp
next
  case (Cons x xs)
  show ?case
  proof (cases i)
    case 0
    with Cons.prems show ?thesis by simp
  next
    case (Suc k)
    with Cons.prems have k: "k < length xs" "name (xs ! k) = n" by simp_all
    then have "xs ! k \<in> set xs" by simp
    with k have "n \<in> set (map name xs)" by force
    with Cons.prems have "name x \<noteq> n" by auto
    with Cons.IH [of k] Cons.prems k Suc show ?thesis by simp
  qed
qed

lemma get_next_step_nth:
  assumes "distinct (map name (steps flow))" "i < length (steps flow)"
      "name (steps flow ! i) = step_name"
  shows "get_next_step flow step_name =
           (if Suc i < length (steps flow) then Some (steps flow ! Suc i) else None)"
proof -
  have d: "dropWhile (\<lambda>st. name st \<noteq> step_name) (steps flow) = drop i (steps flow)"
    using assms by (rule dropWhile_name_distinct)
  show ?thesis
  proof (cases "Suc i < length (steps flow)")
    case True
    then have "drop (Suc i) (steps flow) = steps flow ! Suc i # drop (Suc (Suc i)) (steps flow)"
      by (simp add: Cons_nth_drop_Suc)
    with True show ?thesis by (simp add: get_next_step_def d)
  next
    case False
    then have "drop (Suc i) (steps flow) = []" by simp
    with False show ?thesis by (simp add: get_next_step_def d)
  qed
qed

text \<open>
  A return value with no first element makes \<^verbatim>\<open>retval[0]\<close> raise before anything is
  dispatched.
\<close>

lemma on_step_success_no_first_element:
  assumes "distinct (map name (steps flow))" "i < length (steps flow)"
      "name (steps flow ! i) = step_name" "Suc i < length (steps flow)"
  shows "on_step_success (PList []) step_name flow w = (Inl IndexError, w)"
  using get_next_step_nth [OF assms(1-3)] assms(4)
  by (simp add: on_step_success_def)

text \<open>
  C5. In a workflow with distinct step names, let step \<open>i\<close> be the step named
  \<open>step_name\<close>. If a step follows it, \<open>on_step_success\<close> with a return value whose
  first element is \<open>r\<close> dispatches the following step's task with the single positional
  argument \<open>r\<close> and the keyword arguments \<open>workflow_id\<close> and \<open>step\<close> (the following
  step's name). If step \<open>i\<close> is the last step, nothing is dispatched, whatever the return
  value.
\<close>

theorem on_step_success_dispatch:
  assumes "distinct (map name (steps flow))" "i < length (steps flow)"
      "name (steps flow ! i) = step_name"
  shows
   "(Suc i < length (steps flow) \<longrightarrow>
       on_step_success (PList (r # rest)) step_name flow w =
         (Inr (),
          w\<lparr>sent := sent w @
               [\<lparr>d_task = task (steps flow ! Suc i), d_args = PList [r],
                 d_kwargs = [''workflow_id'' \<mapsto> PStr (wf_id flow),
                             ''step'' \<mapsto> PStr (name (steps flow ! Suc i))]\<rparr>]\<rparr>)) \<and>
    (Suc i = length (steps flow) \<longrightarrow>
       on_step_success retval step_name flow w = (Inr (), w))"
  using get_next_step_nth [OF assms]
  by (simp add: on_step_success_def send_task_def)

theorem on_step_success_dispatch_witness:
  "on_step_success (PList [PInt 42]) ''a'' (ex_flow None None) ex_world =
     (Inr (),
      ex_world\<lparr>sent := [\<lparr>d_task = ''t2'', d_args = PList [PInt 42],
                          d_kwargs = [''workflow_id'' \<mapsto> PStr ''w1'', ''step'' \<mapsto> PStr ''b'']\<rparr>]\<rparr>) \<and>
   on_step_success (PList [PInt 42]) ''b'' (ex_flow None None) ex_world = (Inr (), ex_world)"
proof -
  let ?f = "ex_flow None None"
  have a: "distinct (map name (steps ?f))" "0 < length (steps ?f)" "name (steps ?f ! 0) = ''a''"
    by (simp_all add: ex_flow_def)
  have b: "distinct (map name (steps ?f))" "1 < length (steps ?f)" "name (steps ?f ! 1) = ''b''"
    by (simp_all add: ex_flow_def)
  note 1 = on_step_success_dispatch [OF a, where r = "PInt 42" and rest = "[]" and w = ex_world, THEN conjunct1]
  note 2 = on_step_success_dispatch [OF b, where retval = "PList [PInt 42]" and w = ex_world, THEN conjunct2]
  from 1 2 show ?thesis
    by (simp add: ex_flow_def ex_world_def)
qed

section \<open>Properties: start\<close>

text \<open>
  C8. On a workflow with at least one step, \<open>start\<close> dispatches the first step's task
  with the given positional arguments and the given keyword arguments extended by
  \<open>workflow_id\<close> and \<open>step\<close> (the first step's name). It reads neither the backend nor
  any run record, so no status decides the dispatch, and it leaves the document store and
  the revoke calls as they were.
\<close>

theorem start_dispatch:
  assumes "steps flow \<noteq> []"
  shows "start flow args kw w =
     (Inr (),
      w\<lparr>sent := sent w @
           [\<lparr>d_task = task (hd (steps flow)), d_args = PList args,
             d_kwargs = kw(''workflow_id'' \<mapsto> PStr (wf_id flow),
                           ''step'' \<mapsto> PStr (name (hd (steps flow))))\<rparr>]\<rparr>) \<and>
    wf_col (snd (start flow args kw w)) = wf_col w \<and>
    revoked (snd (start flow args kw w)) = revoked w"
  using assms by (cases "steps flow") (simp_all add: start_def send_task_def)

theorem start_dispatch_witness:
  "start (ex_flow (Some [ex_run ''r1'']) None) [PInt 3] [''x'' \<mapsto> PInt 1] ex_world =
     (Inr (),
      ex_world\<lparr>sent := [\<lparr>d_task = ''t1'', d_args = PList [PInt 3],
                          d_kwargs = [''x'' \<mapsto> PInt 1, ''workflow_id'' \<mapsto> PStr ''w1'',
                                      ''step'' \<mapsto> PStr ''a'']\<rparr>]\<rparr>)"
proof -
  let ?f = "ex_flow (Some [ex_run ''r1'']) None"
  have a: "steps ?f \<noteq> []" by (simp add: ex_flow_def)
  from start_dispatch [OF a, of "[PInt 3]" "[''x'' \<mapsto> PInt 1]" ex_world]
  show ?thesis by (simp add: ex_flow_def ex_world_def)
qed

section \<open>Properties: construction\<close>

lemma set_counter_keys: "set (counter_keys xs) = set xs"
  by (induction xs) auto

lemma distinct_count_list_le: "distinct xs \<longleftrightarrow> (\<forall>x \<in> set xs. count_list xs x \<le> 1)"
  by (induction xs) (auto simp: count_list_0_iff)

lemma duplicates_empty: "duplicates xs = [] \<longleftrightarrow> distinct xs"
proof -
  have "duplicates xs = [] \<longleftrightarrow> (\<forall>k \<in> set xs. \<not> count_list xs k - 1 > 0)"
    by (simp add: duplicates_def filter_empty_conv set_counter_keys)
  also have "\<dots> \<longleftrightarrow> (\<forall>k \<in> set xs. count_list xs k \<le> 1)"
    by auto
  finally show ?thesis
    by (simp add: distinct_count_list_le)
qed

lemma check_steps_pass:
  "\<forall>s \<in> set ss. step_keys_ok s \<Longrightarrow>
     \<exists>sts. check_steps i ss = Inr sts \<and> map (\<lambda>st. Some (name st)) sts = map in_name ss \<and>
           map (\<lambda>st. Some (task st)) sts = map in_task ss \<and>
           map task_runs sts = map in_task_runs ss"
proof (induction ss arbitrary: i)
  case Nil
  then show ?case by simp
next
  case (Cons s ss)
  then obtain sts where "check_steps (Suc i) ss = Inr sts"
      "map (\<lambda>st. Some (name st)) sts = map in_name ss"
      "map (\<lambda>st. Some (task st)) sts = map in_task ss"
      "map task_runs sts = map in_task_runs ss"
    by fastforce
  moreover from Cons.prems obtain n t where "in_name s = Some n" "n \<noteq> []" "in_task s = Some t"
    by (auto simp: step_keys_ok_def)
  ultimately show ?case by simp
qed

lemma check_steps_fail:
  "\<not> (\<forall>s \<in> set ss. step_keys_ok s) \<Longrightarrow> \<exists>f. check_steps i ss = Inl (AssertionError f)"
proof (induction ss arbitrary: i)
  case Nil
  then show ?case by simp
next
  case (Cons s ss)
  show ?case
  proof (cases "step_keys_ok s")
    case True
    with Cons.prems have "\<not> (\<forall>s \<in> set ss. step_keys_ok s)" by simp
    then obtain f where "check_steps (Suc i) ss = Inl (AssertionError f)"
      using Cons.IH by blast
    then show ?thesis
      by (simp split: option.splits)
  next
    case False
    then show ?thesis
      by (auto simp: step_keys_ok_def split: option.splits sum.splits)
  qed
qed

text \<open>
  C6. Creation (no \<open>workflow_id\<close>, a step list \<open>ss\<close>) fails with an assertion error
  and leaves the world as it was when \<open>ss\<close> is empty, when a step lacks the key
  \<open>name\<close> or \<open>task\<close> or has an empty name, and when two steps share a name. In every
  other case it returns a document with the given steps, in order, and the world differs
  from the one before only by that document, stored under its identifier.
\<close>

theorem init_create:
  "(ss = [] \<or> \<not> (\<forall>s \<in> set ss. step_keys_ok s) \<or> \<not> distinct (map in_name ss) \<longrightarrow>
      (\<exists>f. init uid now None (Some ss) nm w = (Inl (AssertionError f), w))) \<and>
   (ss \<noteq> [] \<and> (\<forall>s \<in> set ss. step_keys_ok s) \<and> distinct (map in_name ss) \<longrightarrow>
      (\<exists>flow. init uid now None (Some ss) nm w = (Inr flow, w\<lparr>wf_col := (wf_col w)(uid \<mapsto> flow)\<rparr>) \<and>
              wf_id flow = uid \<and> created_at flow = Some now \<and> wf_name flow = nm \<and>
              map (\<lambda>st. Some (name st)) (steps flow) = map in_name ss \<and>
              map (\<lambda>st. Some (task st)) (steps flow) = map in_task ss \<and>
              map task_runs (steps flow) = map in_task_runs ss))"
proof (intro conjI impI)
  assume bad: "ss = [] \<or> \<not> (\<forall>s \<in> set ss. step_keys_ok s) \<or> \<not> distinct (map in_name ss)"
  show "\<exists>f. init uid now None (Some ss) nm w = (Inl (AssertionError f), w)"
  proof (cases "ss = []")
    case True
    then show ?thesis by (simp add: init_def)
  next
    case ne: False
    show ?thesis
    proof (cases "\<forall>s \<in> set ss. step_keys_ok s")
      case False
      then obtain f where "check_steps 0 ss = Inl (AssertionError f)"
        using check_steps_fail by blast
      with ne show ?thesis by (simp add: init_def)
    next
      case True
      then obtain sts where sts: "check_steps 0 ss = Inr sts"
          "map (\<lambda>st. Some (name st)) sts = map in_name ss"
        using check_steps_pass by blast
      from bad ne True have "\<not> distinct (map in_name ss)" by simp
      with sts(2) have "\<not> distinct (map (\<lambda>st. Some (name st)) sts)" by simp
      then have "\<not> distinct (map name sts)"
        by (simp add: distinct_map inj_on_def comp_def flip: map_map)
      then have "duplicates (map name sts) \<noteq> []"
        by (simp add: duplicates_empty)
      with ne sts(1) show ?thesis by (simp add: init_def Let_def)
    qed
  qed
next
  assume ok: "ss \<noteq> [] \<and> (\<forall>s \<in> set ss. step_keys_ok s) \<and> distinct (map in_name ss)"
  then obtain sts where sts: "check_steps 0 ss = Inr sts"
      "map (\<lambda>st. Some (name st)) sts = map in_name ss"
      "map (\<lambda>st. Some (task st)) sts = map in_task ss"
      "map task_runs sts = map in_task_runs ss"
    using check_steps_pass by blast
  from ok sts(2) have "distinct (map (\<lambda>st. Some (name st)) sts)" by simp
  then have "distinct (map name sts)"
    by (simp add: distinct_map inj_on_def comp_def)
  then have "duplicates (map name sts) = []"
    by (simp add: duplicates_empty)
  with ok sts
  show "\<exists>flow. init uid now None (Some ss) nm w = (Inr flow, w\<lparr>wf_col := (wf_col w)(uid \<mapsto> flow)\<rparr>) \<and>
              wf_id flow = uid \<and> created_at flow = Some now \<and> wf_name flow = nm \<and>
              map (\<lambda>st. Some (name st)) (steps flow) = map in_name ss \<and>
              map (\<lambda>st. Some (task st)) (steps flow) = map in_task ss \<and>
              map task_runs (steps flow) = map in_task_runs ss"
    by (simp add: init_def Let_def insert_one_def)
qed

theorem init_create_witness:
  "(\<exists>f. init ''u1'' 3 None (Some (ex_steps @ ex_steps)) None ex_world =
          (Inl (AssertionError f), ex_world)) \<and>
   (\<exists>flow. init ''u1'' 3 None (Some ex_steps) None ex_world =
             (Inr flow, ex_world\<lparr>wf_col := [''u1'' \<mapsto> flow]\<rparr>) \<and>
           map (\<lambda>st. Some (name st)) (steps flow) = [Some ''a'', Some ''b''])"
proof -
  have bad: "ex_steps @ ex_steps = [] \<or> \<not> (\<forall>s \<in> set (ex_steps @ ex_steps). step_keys_ok s) \<or>
      \<not> distinct (map in_name (ex_steps @ ex_steps))"
    by (simp add: ex_steps_def)
  have ok: "ex_steps \<noteq> [] \<and> (\<forall>s \<in> set ex_steps. step_keys_ok s) \<and>
      distinct (map in_name ex_steps)"
    by (simp add: ex_steps_def step_keys_ok_def)
  note 1 = init_create [where ss = "ex_steps @ ex_steps" and uid = "''u1''" and now = 3
      and nm = None and w = ex_world, THEN conjunct1, THEN mp, OF bad]
  note 2 = init_create [where ss = ex_steps and uid = "''u1''" and now = 3
      and nm = None and w = ex_world, THEN conjunct2, THEN mp, OF ok]
  from 2 obtain flow where f: "init ''u1'' 3 None (Some ex_steps) None ex_world =
        (Inr flow, ex_world\<lparr>wf_col := (wf_col ex_world)(''u1'' \<mapsto> flow)\<rparr>)"
      "map (\<lambda>st. Some (name st)) (steps flow) = map in_name ex_steps"
    by blast
  from f(2) have "map (\<lambda>st. Some (name st)) (steps flow) = [Some ''a'', Some ''b'']"
    by (simp add: ex_steps_def)
  with f(1) 1 show ?thesis
    by (auto simp: ex_world_def)
qed

text \<open>
  C10. With a \<open>workflow_id\<close>, construction is the load by identifier whatever
  \<open>steps\<close> is: the stored document, or the error that none is stored, and the world is
  unchanged. With neither a \<open>workflow_id\<close> nor \<open>steps\<close> it fails and the world is
  unchanged.
\<close>

theorem init_precedence:
  "init uid now (Some wid) (Some ss) nm w = init uid now (Some wid) None nm w \<and>
   init uid now (Some wid) steps_arg nm w =
     (case wf_col w wid of
        Some res \<Rightarrow> (Inr res, w)
      | None \<Rightarrow> (Inl (WorkflowNotFound wid), w)) \<and>
   init uid now None None nm w = (Inl NeitherIdNorSteps, w)"
  by (simp add: init_def)

theorem init_precedence_witness:
  "init ''u1'' 3 (Some ''w1'') (Some ex_steps) None
     (ex_world\<lparr>wf_col := [''w1'' \<mapsto> ex_flow None None]\<rparr>) =
     (Inr (ex_flow None None), ex_world\<lparr>wf_col := [''w1'' \<mapsto> ex_flow None None]\<rparr>) \<and>
   init ''u1'' 3 (Some ''w1'') (Some ex_steps) None ex_world =
     (Inl (WorkflowNotFound ''w1''), ex_world) \<and>
   init ''u1'' 3 None None None ex_world = (Inl NeitherIdNorSteps, ex_world)"
proof -
  let ?w = "ex_world\<lparr>wf_col := [''w1'' \<mapsto> ex_flow None None]\<rparr>"
  note 1 = init_precedence [where uid = "''u1''" and now = 3 and wid = "''w1''"
      and steps_arg = "Some ex_steps" and nm = None and w = ?w, THEN conjunct2, THEN conjunct1]
  note 2 = init_precedence [where uid = "''u1''" and now = 3 and wid = "''w1''"
      and steps_arg = "Some ex_steps" and nm = None and w = ex_world, THEN conjunct2, THEN conjunct1]
  note 3 = init_precedence [where uid = "''u1''" and now = 3 and nm = None and w = ex_world,
      THEN conjunct2, THEN conjunct2]
  from 1 2 3 show ?thesis
    by (simp add: ex_world_def)
qed

section \<open>Properties: undecodable results\<close>

text \<open>
  C9, as the code has it. When the stored result of a record is not \<^verbatim>\<open>None\<close> and the
  decoder raises on it, \<open>get_task_instance\<close> returns the record with only
  \<open>date_start\<close> set: the result is still the stored, undecoded value. The view
  \<open>get_embellished_workflow\<close> returns for every backend, so for every decoder, whenever
  the workflow's document is in the store.
\<close>

theorem get_task_instance_undecodable:
  "(collection b tid = Some rec \<and> ti_result rec = Some raw \<and> raw \<noteq> PNone \<and>
    json_loads b raw = None \<longrightarrow>
      get_task_instance b tid ds = Some (rec\<lparr>ti_date_start := ds\<rparr>) \<and>
      map_option ti_result (get_task_instance b tid ds) = Some (Some raw)) \<and>
   (wf_col w (wf_id flow) = Some stored \<longrightarrow>
      (\<exists>view. get_embellished_workflow b with_last with_prev flow w = (Inr view, stored) \<and>
              ew_status view = get_workflow_status b stored \<and>
              length (ew_steps view) = length (steps stored)))"
  by (simp add: get_task_instance_def get_embellished_workflow_def refresh_def Let_def)

theorem get_task_instance_undecodable_witness:
  "get_task_instance ex_backend ''r3'' (Some 4) =
     Some \<lparr>ti_id = ''r3'', ti_args = PList [PInt 7], ti_result = Some (PStr ''{''),
           ti_date_start = Some 4\<rparr> \<and>
   fst (get_embellished_workflow ex_backend True True (ex_flow None None)
          (ex_world\<lparr>wf_col := [''w1'' \<mapsto> ex_flow (Some [ex_run ''r1'', ex_run ''r3'']) None]\<rparr>)) \<noteq>
     Inl (WorkflowNotFound ''w1'')"
proof -
  let ?rec = "\<lparr>ti_id = ''r3'', ti_args = PList [PInt 7], ti_result = Some (PStr ''{''),
               ti_date_start = None\<rparr>"
  let ?w = "ex_world\<lparr>wf_col := [''w1'' \<mapsto> ex_flow (Some [ex_run ''r1'', ex_run ''r3'']) None]\<rparr>"
  have a: "collection ex_backend ''r3'' = Some ?rec \<and> ti_result ?rec = Some (PStr ''{'') \<and>
      PStr ''{'' \<noteq> PNone \<and> json_loads ex_backend (PStr ''{'') = None"
    by (simp add: ex_backend_def)
  have b: "wf_col ?w (wf_id (ex_flow None None)) =
      Some (ex_flow (Some [ex_run ''r1'', ex_run ''r3'']) None)"
    by (simp add: ex_flow_def)
  note 1 = get_task_instance_undecodable [where b = ex_backend and tid = "''r3''" and ds = "Some 4",
      THEN conjunct1, THEN mp, OF a]
  note 2 = get_task_instance_undecodable [where b = ex_backend and with_last = True
      and with_prev = True and w = ?w and flow = "ex_flow None None", THEN conjunct2, THEN mp, OF b]
  from 1 2 show ?thesis by auto
qed

text \<open>
  C9 as stated has the undecodable result surfaced as null. On the sample backend the
  record of run \<open>r3\<close> comes back with the stored text as its result, which is neither an
  absent result nor \<^verbatim>\<open>None\<close>.
\<close>

theorem get_task_instance_null_counterexample:
  "json_loads ex_backend (PStr ''{'') = None \<and>
   map_option ti_result (get_task_instance ex_backend ''r3'' None) = Some (Some (PStr ''{'')) \<and>
   map_option ti_result (get_task_instance ex_backend ''r3'' None) \<noteq> Some None \<and>
   map_option ti_result (get_task_instance ex_backend ''r3'' None) \<noteq> Some (Some PNone)"
  by (simp add: ex_backend_def get_task_instance_def)

section \<open>Properties: run history\<close>

lemma length_map_first [simp]: "length (map_first P f xs) = length xs"
  by (induction xs) auto

lemma map_first_nth:
  "k < length xs \<Longrightarrow> map_first P f xs ! k = xs ! k \<or> map_first P f xs ! k = f (xs ! k)"
proof (induction xs arbitrary: k)
  case Nil
  then show ?case by simp
next
  case (Cons x xs)
  then show ?case by (cases k) auto
qed

lemma map_map_first:
  "(\<And>x. g (f x) = g x) \<Longrightarrow> map g (map_first P f xs) = map g xs"
  by (induction xs) auto

lemma wf_col_start: "wf_col (snd (start flow args kw w)) = wf_col w"
  by (simp add: start_def send_task_def Let_def split: list.splits)

lemma wf_col_pause: "wf_col (snd (pause b flow w)) = wf_col w"
  by (simp add: pause_def revoke_def Let_def split: option.splits prod.splits)

lemma wf_col_resume: "wf_col (snd (resume b flow force args w)) = wf_col w"
  by (simp add: resume_def send_task_def Let_def split: option.splits prod.splits)

lemma wf_col_on_step_success: "wf_col (snd (on_step_success retval step_name flow w)) = wf_col w"
  by (simp add: on_step_success_def send_task_def Let_def split: option.splits sum.splits)

lemma update_result:
  "update now flow w = (flow', w') \<Longrightarrow>
     flow' = flow\<lparr>updated_at := Some now\<rparr> \<and>
     (wf_col w' = wf_col w \<or> wf_col w' = (wf_col w)(wf_id flow \<mapsto> flow'))"
  by (cases "wf_id flow \<in> dom (wf_col w)") (auto simp: update_def update_one_def Let_def)

lemma history_change_prefix:
  "history_change op old new \<Longrightarrow> take (length old - 1) new = butlast old"
  by (cases op) (auto simp: butlast_conv_take)


lemma runs_of_update [simp]: "runs_of (st\<lparr>task_runs := Some rs\<rparr>) = rs"
  by (simp add: runs_of_def)

lemma on_step_start_result:
  assumes "snd (on_step_start t_start t_upd step_name tid flow w) = (flow', w')"
  shows "map name (steps flow') = map name (steps flow) \<and>
     map task (steps flow') = map task (steps flow) \<and>
     (\<forall>k<length (steps flow).
        history_change (OpOnStepStart t_start t_upd step_name tid)
          (runs_of (steps flow ! k)) (runs_of (steps flow' ! k))) \<and>
     (wf_col w' = wf_col w \<or> wf_col w' = (wf_col w)(wf_id flow \<mapsto> flow'))"
proof (cases "get_step flow step_name")
  case None
  with assms show ?thesis by (simp add: on_step_start_def)
next
  case (Some st)
  let ?f = "\<lambda>st. st\<lparr>task_runs :=
     Some (runs_of st @ [\<lparr>task_id = tid, date_start = Some t_start, end_time = None\<rparr>])\<rparr>"
  let ?flow1 = "flow\<lparr>steps := map_first (\<lambda>st. name st = step_name) ?f (steps flow)\<rparr>"
  from Some assms have u: "update t_upd ?flow1 w = (flow', w')"
    by (simp add: on_step_start_def Let_def)
  note r = update_result [OF u]
  from r have s: "steps flow' = map_first (\<lambda>st. name st = step_name) ?f (steps flow)"
    by simp
  have "\<forall>k<length (steps flow).
        history_change (OpOnStepStart t_start t_upd step_name tid)
          (runs_of (steps flow ! k)) (runs_of (steps flow' ! k))"
  proof (intro allI impI)
    fix k assume "k < length (steps flow)"
    from map_first_nth [OF this, of "\<lambda>st. name st = step_name" ?f]
    show "history_change (OpOnStepStart t_start t_upd step_name tid)
          (runs_of (steps flow ! k)) (runs_of (steps flow' ! k))"
      by (auto simp: s)
  qed
  moreover have "map name (steps flow') = map name (steps flow)"
    unfolding s by (rule map_map_first) simp
  moreover have "map task (steps flow') = map task (steps flow)"
    unfolding s by (rule map_map_first) simp
  moreover have "wf_col w' = wf_col w \<or> wf_col w' = (wf_col w)(wf_id flow \<mapsto> flow')"
  proof -
    have "wf_id ?flow1 = wf_id flow" by simp
    with r show ?thesis by metis
  qed
  ultimately show ?thesis by simp
qed

lemma update_step_end_time_result:
  assumes "snd (update_step_end_time t_end t_upd step_name flow w) = (flow', w')"
  shows "map name (steps flow') = map name (steps flow) \<and>
     map task (steps flow') = map task (steps flow) \<and>
     (\<forall>k<length (steps flow).
        history_change (OpUpdateStepEndTime t_end t_upd step_name)
          (runs_of (steps flow ! k)) (runs_of (steps flow' ! k))) \<and>
     (wf_col w' = wf_col w \<or> wf_col w' = (wf_col w)(wf_id flow \<mapsto> flow'))"
proof (cases "get_step flow step_name")
  case None
  with assms show ?thesis by (simp add: update_step_end_time_def)
next
  case (Some st)
  let ?f = "\<lambda>st. let rs = runs_of st
                 in if length rs > 0
                    then st\<lparr>task_runs := Some (butlast rs @ [(last rs)\<lparr>end_time := Some t_end\<rparr>])\<rparr>
                    else st"
  let ?flow1 = "flow\<lparr>steps := map_first (\<lambda>st. name st = step_name) ?f (steps flow)\<rparr>"
  from Some assms have u: "update t_upd ?flow1 w = (flow', w')"
    by (simp add: update_step_end_time_def Let_def)
  note r = update_result [OF u]
  from r have s: "steps flow' = map_first (\<lambda>st. name st = step_name) ?f (steps flow)"
    by simp
  have "\<forall>k<length (steps flow).
        history_change (OpUpdateStepEndTime t_end t_upd step_name)
          (runs_of (steps flow ! k)) (runs_of (steps flow' ! k))"
  proof (intro allI impI)
    fix k assume "k < length (steps flow)"
    from map_first_nth [OF this, of "\<lambda>st. name st = step_name" ?f]
    show "history_change (OpUpdateStepEndTime t_end t_upd step_name)
          (runs_of (steps flow ! k)) (runs_of (steps flow' ! k))"
      by (auto simp: s Let_def)
  qed
  moreover have "map name (steps flow') = map name (steps flow)"
    unfolding s by (rule map_map_first) (simp add: Let_def)
  moreover have "map task (steps flow') = map task (steps flow)"
    unfolding s by (rule map_map_first) (simp add: Let_def)
  moreover have "wf_col w' = wf_col w \<or> wf_col w' = (wf_col w)(wf_id flow \<mapsto> flow')"
  proof -
    have "wf_id ?flow1 = wf_id flow" by simp
    with r show ?thesis by metis
  qed
  ultimately show ?thesis by simp
qed

lemma update_in_store:
  assumes "update now flow w = (flow', w')" "wf_id flow \<in> dom (wf_col w)"
  shows "flow' = flow\<lparr>updated_at := Some now\<rparr> \<and> wf_col w' = (wf_col w)(wf_id flow \<mapsto> flow')"
  using assms by (auto simp: update_def update_one_def Let_def)

lemma on_step_start_store:
  assumes "snd (on_step_start t_start t_upd step_name tid flow w) = (flow', w')"
      and "wf_col w (wf_id flow) = Some flow"
  shows "wf_id flow' = wf_id flow \<and> wf_col w' = (wf_col w)(wf_id flow \<mapsto> flow')"
proof (cases "get_step flow step_name")
  case None
  with assms have "flow' = flow" "w' = w" by (simp_all add: on_step_start_def)
  with assms(2) show ?thesis by (simp add: map_upd_triv)
next
  case (Some st)
  let ?f = "\<lambda>st. st\<lparr>task_runs :=
     Some (runs_of st @ [\<lparr>task_id = tid, date_start = Some t_start, end_time = None\<rparr>])\<rparr>"
  let ?flow1 = "flow\<lparr>steps := map_first (\<lambda>st. name st = step_name) ?f (steps flow)\<rparr>"
  from Some assms have u: "update t_upd ?flow1 w = (flow', w')"
    by (simp add: on_step_start_def Let_def)
  from assms(2) have "wf_id ?flow1 \<in> dom (wf_col w)" by auto
  from update_in_store [OF u this] show ?thesis by simp
qed

lemma update_step_end_time_store:
  assumes "snd (update_step_end_time t_end t_upd step_name flow w) = (flow', w')"
      and "wf_col w (wf_id flow) = Some flow"
  shows "wf_id flow' = wf_id flow \<and> wf_col w' = (wf_col w)(wf_id flow \<mapsto> flow')"
proof (cases "get_step flow step_name")
  case None
  with assms have "flow' = flow" "w' = w" by (simp_all add: update_step_end_time_def)
  with assms(2) show ?thesis by (simp add: map_upd_triv)
next
  case (Some st)
  let ?f = "\<lambda>st. let rs = runs_of st
                 in if length rs > 0
                    then st\<lparr>task_runs := Some (butlast rs @ [(last rs)\<lparr>end_time := Some t_end\<rparr>])\<rparr>
                    else st"
  let ?flow1 = "flow\<lparr>steps := map_first (\<lambda>st. name st = step_name) ?f (steps flow)\<rparr>"
  from Some assms have u: "update t_upd ?flow1 w = (flow', w')"
    by (simp add: update_step_end_time_def Let_def)
  from assms(2) have "wf_id ?flow1 \<in> dom (wf_col w)" by auto
  from update_in_store [OF u this] show ?thesis by simp
qed

lemma unchanged_history:
  assumes "flow' = flow" "\<And>old new. history_change op old new = (new = old)"
  shows "map name (steps flow') = map name (steps flow) \<and>
     map task (steps flow') = map task (steps flow) \<and>
     (\<forall>k<length (steps flow).
        history_change op (runs_of (steps flow ! k)) (runs_of (steps flow' ! k)) \<and>
        take (length (runs_of (steps flow ! k)) - 1) (runs_of (steps flow' ! k)) =
          butlast (runs_of (steps flow ! k)))"
  using assms by (simp add: butlast_conv_take)

text \<open>
  C7, as the code has it. Let the engine's document \<open>flow\<close> be the one stored under its
  identifier, as it is after construction, and let one operation take \<open>flow\<close> and the
  world \<open>w\<close> to \<open>flow'\<close> and \<open>w'\<close>. Then \<open>flow'\<close> has the same identifier and is
  again the stored document, and no other stored document has changed. The names and tasks
  of the steps are the same, in the same order. Each step's run history is the old one, or
  the old one with one record appended (only \<open>on_step_start\<close>), or the old one with
  \<open>end_time\<close> set on its last element (only \<open>update_step_end_time\<close>); every element
  but the last is as it was. This holds for every operation, the reloading ones included.
\<close>

theorem run_history_preserved:
  assumes "run_op b op (flow, w) = (flow', w')"
      and "wf_col w (wf_id flow) = Some flow"
  shows "wf_id flow' = wf_id flow \<and>
     wf_col w' = (wf_col w)(wf_id flow \<mapsto> flow') \<and>
     map name (steps flow') = map name (steps flow) \<and>
     map task (steps flow') = map task (steps flow) \<and>
     (\<forall>k<length (steps flow).
        history_change op (runs_of (steps flow ! k)) (runs_of (steps flow' ! k)) \<and>
        take (length (runs_of (steps flow ! k)) - 1) (runs_of (steps flow' ! k)) =
          butlast (runs_of (steps flow ! k)))"
proof -
  have same: "wf_id flow' = wf_id flow \<and> wf_col w' = (wf_col w)(wf_id flow \<mapsto> flow')"
    if "flow' = flow" "wf_col w' = wf_col w"
    using that assms(2) by (simp add: map_upd_triv)
  show ?thesis
  proof (cases op)
    case (OpStart args kw)
    with assms(1) have "flow' = flow" "wf_col w' = wf_col w" by (auto simp: wf_col_start)
    with same unchanged_history [of flow' flow op] OpStart show ?thesis by simp
  next
    case OpPause
    with assms(1) have "flow' = flow" "wf_col w' = wf_col w" by (auto simp: wf_col_pause)
    with same unchanged_history [of flow' flow op] OpPause show ?thesis by simp
  next
    case (OpResume force args)
    with assms(1) have "flow' = flow" "wf_col w' = wf_col w" by (auto simp: wf_col_resume)
    with same unchanged_history [of flow' flow op] OpResume show ?thesis by simp
  next
    case (OpOnStepStart t_start t_upd step_name tid)
    with assms(1) have e: "snd (on_step_start t_start t_upd step_name tid flow w) = (flow', w')"
      by simp
    from on_step_start_result [OF e] on_step_start_store [OF e assms(2)] show ?thesis
      unfolding OpOnStepStart using history_change_prefix
      by (simp del: history_change.simps) blast
  next
    case (OpOnStepSuccess retval step_name)
    with assms(1) have "flow' = flow" "wf_col w' = wf_col w"
      by (auto simp: wf_col_on_step_success)
    with same unchanged_history [of flow' flow op] OpOnStepSuccess show ?thesis by simp
  next
    case (OpUpdate now)
    with assms(1) have u: "update now flow w = (flow', w')" by simp
    from assms(2) have "wf_id flow \<in> dom (wf_col w)" by auto
    from update_in_store [OF u this] show ?thesis
      unfolding OpUpdate by (simp add: butlast_conv_take)
  next
    case (OpUpdateStepEndTime t_end t_upd step_name)
    with assms(1) have e: "snd (update_step_end_time t_end t_upd step_name flow w) = (flow', w')"
      by simp
    from update_step_end_time_result [OF e] update_step_end_time_store [OF e assms(2)]
    show ?thesis
      unfolding OpUpdateStepEndTime using history_change_prefix
      by (simp del: history_change.simps) blast
  next
    case OpRefresh
    with assms have "flow' = flow" "wf_col w' = wf_col w"
      by (auto simp: refresh_def)
    with same unchanged_history [of flow' flow op] OpRefresh show ?thesis by simp
  next
    case (OpGetEmbellishedWorkflow with_last with_prev)
    with assms have "flow' = flow" "wf_col w' = wf_col w"
      by (auto simp: get_embellished_workflow_def refresh_def Let_def)
    with same unchanged_history [of flow' flow op] OpGetEmbellishedWorkflow show ?thesis by simp
  qed
qed

theorem run_history_preserved_witness:
  "run_op ex_backend (OpOnStepStart 5 6 ''a'' ''r9'')
     (ex_flow (Some [ex_run ''r1'', ex_run ''r2'']) None,
      ex_world\<lparr>wf_col := [''w1'' \<mapsto> ex_flow (Some [ex_run ''r1'', ex_run ''r2'']) None]\<rparr>) =
     (ex_flow (Some [ex_run ''r1'', ex_run ''r2'',
                     \<lparr>task_id = ''r9'', date_start = Some 5, end_time = None\<rparr>]) None
        \<lparr>updated_at := Some 6\<rparr>,
      ex_world\<lparr>wf_col := [''w1'' \<mapsto>
        ex_flow (Some [ex_run ''r1'', ex_run ''r2'',
                       \<lparr>task_id = ''r9'', date_start = Some 5, end_time = None\<rparr>]) None
          \<lparr>updated_at := Some 6\<rparr>]\<rparr>) \<and>
   run_op ex_backend (OpUpdateStepEndTime 7 8 ''a'')
     (ex_flow (Some [ex_run ''r1'', ex_run ''r2'']) None,
      ex_world\<lparr>wf_col := [''w1'' \<mapsto> ex_flow (Some [ex_run ''r1'', ex_run ''r2'']) None]\<rparr>) =
     (ex_flow (Some [ex_run ''r1'', (ex_run ''r2'')\<lparr>end_time := Some 7\<rparr>]) None
        \<lparr>updated_at := Some 8\<rparr>,
      ex_world\<lparr>wf_col := [''w1'' \<mapsto>
        ex_flow (Some [ex_run ''r1'', (ex_run ''r2'')\<lparr>end_time := Some 7\<rparr>]) None
          \<lparr>updated_at := Some 8\<rparr>]\<rparr>) \<and>
   take 1 (runs_of (steps (fst (run_op ex_backend (OpOnStepStart 5 6 ''a'' ''r9'')
     (ex_flow (Some [ex_run ''r1'', ex_run ''r2'']) None,
      ex_world\<lparr>wf_col := [''w1'' \<mapsto> ex_flow (Some [ex_run ''r1'', ex_run ''r2'']) None]\<rparr>))) ! 0)) =
     [ex_run ''r1''] \<and>
   take 1 (runs_of (steps (fst (run_op ex_backend (OpUpdateStepEndTime 7 8 ''a'')
     (ex_flow (Some [ex_run ''r1'', ex_run ''r2'']) None,
      ex_world\<lparr>wf_col := [''w1'' \<mapsto> ex_flow (Some [ex_run ''r1'', ex_run ''r2'']) None]\<rparr>))) ! 0)) =
     [ex_run ''r1'']"
proof -
  let ?f = "ex_flow (Some [ex_run ''r1'', ex_run ''r2'']) None"
  let ?w = "ex_world\<lparr>wf_col := [''w1'' \<mapsto> ?f]\<rparr>"
  let ?p = "run_op ex_backend (OpOnStepStart 5 6 ''a'' ''r9'') (?f, ?w)"
  let ?q = "run_op ex_backend (OpUpdateStepEndTime 7 8 ''a'') (?f, ?w)"
  have sync: "wf_col ?w (wf_id ?f) = Some ?f"
    by (simp add: ex_flow_def)
  have l: "0 < length (steps ?f)" "runs_of (steps ?f ! 0) = [ex_run ''r1'', ex_run ''r2'']"
    by (simp_all add: ex_flow_def runs_of_def)
  have ep: "?p = (fst ?p, snd ?p)" and eq: "?q = (fst ?q, snd ?q)"
    by simp_all
  note tp = run_history_preserved [OF ep sync]
  note tq = run_history_preserved [OF eq sync]
  from tp l(1) have "take (length (runs_of (steps ?f ! 0)) - 1) (runs_of (steps (fst ?p) ! 0)) =
      butlast (runs_of (steps ?f ! 0))"
    by blast
  then have p1: "take 1 (runs_of (steps (fst ?p) ! 0)) = [ex_run ''r1'']"
    by (simp only: l(2)) simp
  from tq l(1) have "take (length (runs_of (steps ?f ! 0)) - 1) (runs_of (steps (fst ?q) ! 0)) =
      butlast (runs_of (steps ?f ! 0))"
    by blast
  then have q1: "take 1 (runs_of (steps (fst ?q) ! 0)) = [ex_run ''r1'']"
    by (simp only: l(2)) simp
  have vp: "?p =
     (ex_flow (Some [ex_run ''r1'', ex_run ''r2'',
                     \<lparr>task_id = ''r9'', date_start = Some 5, end_time = None\<rparr>]) None
        \<lparr>updated_at := Some 6\<rparr>,
      ex_world\<lparr>wf_col := [''w1'' \<mapsto>
        ex_flow (Some [ex_run ''r1'', ex_run ''r2'',
                       \<lparr>task_id = ''r9'', date_start = Some 5, end_time = None\<rparr>]) None
          \<lparr>updated_at := Some 6\<rparr>]\<rparr>)"
    by (simp add: on_step_start_def get_step_def update_def update_one_def Let_def
        ex_flow_def ex_world_def runs_of_def)
  have vq: "?q =
     (ex_flow (Some [ex_run ''r1'', (ex_run ''r2'')\<lparr>end_time := Some 7\<rparr>]) None
        \<lparr>updated_at := Some 8\<rparr>,
      ex_world\<lparr>wf_col := [''w1'' \<mapsto>
        ex_flow (Some [ex_run ''r1'', (ex_run ''r2'')\<lparr>end_time := Some 7\<rparr>]) None
          \<lparr>updated_at := Some 8\<rparr>]\<rparr>)"
    by (simp add: update_step_end_time_def get_step_def update_def update_one_def Let_def
        ex_flow_def ex_world_def runs_of_def)
  from vp vq p1 q1 show ?thesis by (simp only: simp_thms)
qed

text \<open>
  C7 as stated speaks of every operation. An engine whose document is older than the stored
  one writes its own copy over it (\<^verbatim>\<open>update\<close> sets the whole document, and the last
  writer wins): with the runs \<open>r1\<close>, \<open>r2\<close> stored for step \<open>a\<close> and an engine that
  loaded the workflow before either was recorded, \<open>on_step_start\<close> leaves the single run
  \<open>r9\<close> in the store. The stored history has lost both records, which is neither an
  append nor a change of the last element.
\<close>

theorem stale_update_counterexample:
  "map_option (\<lambda>d. runs_of (steps d ! 0))
     (wf_col (ex_world\<lparr>wf_col := [''w1'' \<mapsto> ex_flow (Some [ex_run ''r1'', ex_run ''r2'']) None]\<rparr>)
        ''w1'') = Some [ex_run ''r1'', ex_run ''r2''] \<and>
   map_option (\<lambda>d. runs_of (steps d ! 0))
     (wf_col (snd (run_op ex_backend (OpOnStepStart 5 6 ''a'' ''r9'')
        (ex_flow None None,
         ex_world\<lparr>wf_col := [''w1'' \<mapsto> ex_flow (Some [ex_run ''r1'', ex_run ''r2'']) None]\<rparr>)))
        ''w1'') = Some [\<lparr>task_id = ''r9'', date_start = Some 5, end_time = None\<rparr>] \<and>
   \<not> history_change (OpOnStepStart 5 6 ''a'' ''r9'') [ex_run ''r1'', ex_run ''r2'']
       [\<lparr>task_id = ''r9'', date_start = Some 5, end_time = None\<rparr>] \<and>
   take 1 [\<lparr>task_id = ''r9'', date_start = Some 5, end_time = None\<rparr>] \<noteq>
     butlast [ex_run ''r1'', ex_run ''r2'']"
  by (simp add: on_step_start_def get_step_def update_def update_one_def Let_def
      ex_flow_def ex_world_def ex_run_def runs_of_def)

end
